theory Spec2Isabelle
  imports Complex_Main "HOL-Library.AList" "HOL-Library.Sublist"
begin

section \<open>Python values used by the proxy\<close>

text \<open>
  A Python \<open>str\<close> is modelled as a \<open>string\<close>: a list of characters, each character a code
  point below 256. A \<open>dict\<close> with string keys is an association list in insertion order:
  \<open>d[k] = v\<close> is \<open>AList.update k v d\<close> (an existing key keeps its place, a new key goes to
  the end), \<open>d.get(k)\<close> is \<open>map_of d k\<close>, \<open>d.pop(k, None)\<close> and \<open>del d[k]\<close> are
  \<open>AList.delete k d\<close>, and \<open>k in d\<close> is \<open>has_key k d\<close>.
\<close>

type_synonym 'v dict = "(string \<times> 'v) list"

definition has_key :: "string \<Rightarrow> 'v dict \<Rightarrow> bool" where
  "has_key k d = (map_of d k \<noteq> None)"

text \<open>
  \<open>str.isspace\<close> on the code points below 256: the ASCII controls TAB to CR, the
  separators FS to US, the space, NEL (0x85) and the no-break space (0xA0).
  \<open>str.strip()\<close> removes the leading and the trailing run of such characters.
\<close>

definition isspace :: "char \<Rightarrow> bool" where
  "isspace c =
     (let n = (of_char c :: nat)
      in (9 \<le> n \<and> n \<le> 13) \<or> (28 \<le> n \<and> n \<le> 32) \<or> n = 133 \<or> n = 160)"

definition strip :: "string \<Rightarrow> string" where
  "strip s = rev (dropWhile isspace (rev (dropWhile isspace s)))"

definition whitespace_only :: "string \<Rightarrow> bool" where
  "whitespace_only s = (s \<noteq> [] \<and> list_all isspace s)"

section \<open>channel\_registry.py\<close>

subsection \<open>The channel id pattern\<close>

text \<open>
  \<open>channel_grammar\<close> is the character class and the length bound of
  \<^verbatim>\<open>[a-zA-Z0-9_-]{1,64}\<close>. \<open>CHANNEL_ID_PATTERN_match\<close> is
  \<^verbatim>\<open>re.compile(r'^[a-zA-Z0-9_-]{1,64}$').match\<close>: in Python, \<^verbatim>\<open>$\<close> also matches just
  before a line feed that ends the string.
\<close>

definition channel_char :: "char \<Rightarrow> bool" where
  "channel_char c =
     (let n = (of_char c :: nat)
      in (97 \<le> n \<and> n \<le> 122) \<or> (65 \<le> n \<and> n \<le> 90) \<or> (48 \<le> n \<and> n \<le> 57)
         \<or> c = CHR ''_'' \<or> c = CHR ''-'')"

definition channel_grammar :: "string \<Rightarrow> bool" where
  "channel_grammar s = (1 \<le> length s \<and> length s \<le> 64 \<and> list_all channel_char s)"

definition CHANNEL_ID_PATTERN_match :: "string \<Rightarrow> bool" where
  "CHANNEL_ID_PATTERN_match s =
     (channel_grammar s \<or> (s \<noteq> [] \<and> last s = CHR 0x0A \<and> channel_grammar (butlast s)))"

definition DEFAULT_CHANNEL :: string where
  "DEFAULT_CHANNEL = ''default''"

definition validate_channel_id :: "string \<Rightarrow> string" where
  "validate_channel_id channel_id =
     (if channel_id = [] \<or> strip channel_id = [] then DEFAULT_CHANNEL
      else if \<not> CHANNEL_ID_PATTERN_match (strip channel_id) then DEFAULT_CHANNEL
      else strip channel_id)"

subsection \<open>The registry\<close>

record ChannelRegistry =
  sessions :: "string dict"

definition ChannelRegistry_init :: ChannelRegistry where
  "ChannelRegistry_init = \<lparr>sessions = []\<rparr>"

definition register :: "string \<Rightarrow> string \<Rightarrow> ChannelRegistry \<Rightarrow> ChannelRegistry" where
  "register session_id channel_id reg =
     reg\<lparr>sessions := AList.update session_id (validate_channel_id channel_id) (sessions reg)\<rparr>"

definition get_channel :: "string \<Rightarrow> ChannelRegistry \<Rightarrow> string" where
  "get_channel session_id reg =
     (case map_of (sessions reg) session_id of None \<Rightarrow> DEFAULT_CHANNEL | Some c \<Rightarrow> c)"

definition has_session :: "string \<Rightarrow> ChannelRegistry \<Rightarrow> bool" where
  "has_session session_id reg = has_key session_id (sessions reg)"

definition unregister :: "string \<Rightarrow> ChannelRegistry \<Rightarrow> ChannelRegistry" where
  "unregister session_id reg =
     (if has_key session_id (sessions reg)
      then reg\<lparr>sessions := AList.delete session_id (sessions reg)\<rparr>
      else reg)"

section \<open>channel\_middleware.py\<close>

text \<open>
  The part of an ASGI request that \<open>ChannelMiddleware.__call__\<close> reads: the scope type, the
  name/value pairs of the query string in their order (\<open>parse_qs(...).get("channel")[0]\<close>
  is the value of the first pair named \<open>channel\<close>), and the value of the request header
  \<open>mcp-session-id\<close>. The wrapped application is represented by the messages it passes to
  \<open>send\<close>; \<open>dict(headers)\<close> keeps the last of several headers of one name.
\<close>

record Request =
  scope_type :: string
  query_params :: "(string \<times> string) list"
  mcp_session_id :: "string option"

datatype message = Http_response_start "(string \<times> string) list" | Other_message

definition MCP_SESSION_ID_HEADER :: string where
  "MCP_SESSION_ID_HEADER = ''mcp-session-id''"

definition query_channel :: "Request \<Rightarrow> string" where
  "query_channel req =
     validate_channel_id
       (case map_of (query_params req) ''channel'' of None \<Rightarrow> DEFAULT_CHANNEL | Some v \<Rightarrow> v)"

definition effective_channel :: "Request \<Rightarrow> ChannelRegistry \<Rightarrow> string" where
  "effective_channel req reg =
     (case mcp_session_id req of
        None \<Rightarrow> query_channel req
      | Some request_session_id \<Rightarrow>
          if request_session_id \<noteq> [] \<and> has_session request_session_id reg
          then get_channel request_session_id reg
          else query_channel req)"

definition send_wrapper ::
  "bool \<Rightarrow> string \<Rightarrow> message \<Rightarrow> ChannelRegistry \<Rightarrow> ChannelRegistry" where
  "send_wrapper is_new_session channel msg reg =
     (case msg of
        Http_response_start headers \<Rightarrow>
          if is_new_session then
            (case map_of (rev headers) MCP_SESSION_ID_HEADER of
               None \<Rightarrow> reg
             | Some session_id \<Rightarrow> if session_id \<noteq> [] then register session_id channel reg else reg)
          else reg
      | Other_message \<Rightarrow> reg)"

text \<open>
  \<open>ChannelMiddleware_call req msgs reg\<close> returns the value stored in \<open>scope["channel"]\<close>
  (\<open>None\<close> when the scope is not an HTTP scope and is passed on untouched) and the registry
  after the wrapped application has sent the messages \<open>msgs\<close>.
\<close>

definition ChannelMiddleware_call ::
  "Request \<Rightarrow> message list \<Rightarrow> ChannelRegistry \<Rightarrow> string option \<times> ChannelRegistry" where
  "ChannelMiddleware_call req msgs reg =
     (if scope_type req \<noteq> ''http'' then (None, reg)
      else
        (let channel = effective_channel req reg;
             is_new_session = (mcp_session_id req = None)
         in (Some channel, foldl (\<lambda>r msg. send_wrapper is_new_session channel msg r) reg msgs)))"

section \<open>command\_queue.py\<close>

subsection \<open>Command and CommandQueue\<close>

text \<open>
  A \<open>Command\<close> carries its id (the string of the UUID drawn for it), the tool name and the
  parameters. Its \<open>result_event\<close> is the only part that changes after creation and is only
  reached through \<open>_pending\<close>, so the state of the event is kept beside the command in the
  pending entry. \<open>_queue\<close> is the content of the unbounded \<open>asyncio.Queue\<close>, head first.
\<close>

record 'p Command =
  cmd_id :: string
  tool :: string
  params :: 'p

record ('p, 'r) CommandQueue =
  pending :: "('p Command \<times> bool) dict"
  results :: "'r dict"
  queue :: "'p Command list"

definition CommandQueue_init :: "('p, 'r) CommandQueue" where
  "CommandQueue_init = \<lparr>pending = [], results = [], queue = []\<rparr>"

text \<open>The first argument of \<open>add_command\<close> is the value of \<open>str(uuid.uuid4())\<close>.\<close>

definition CommandQueue_add_command ::
  "string \<Rightarrow> string \<Rightarrow> 'p \<Rightarrow> ('p, 'r) CommandQueue \<Rightarrow> string \<times> ('p, 'r) CommandQueue" where
  "CommandQueue_add_command command_id tname tparams q =
     (let command = \<lparr>cmd_id = command_id, tool = tname, params = tparams\<rparr>
      in (command_id,
          q\<lparr>pending := AList.update command_id (command, False) (pending q),
            queue := queue q @ [command]\<rparr>))"

text \<open>
  A call of \<open>get_next_command\<close> either returns at once, or it finds the queue empty in the
  blocking branch, waits for the whole timeout and returns \<open>None\<close>. A command that arrives
  during such a wait is the history in which \<open>add_command\<close> comes first.
\<close>

datatype 'c polled = Returned_at_once "'c option" | Returned_after_wait real

fun polled_value :: "'c polled \<Rightarrow> 'c option" where
  "polled_value (Returned_at_once c) = c"
| "polled_value (Returned_after_wait t) = None"

definition get_nowait ::
  "('p, 'r) CommandQueue \<Rightarrow> 'p Command polled \<times> ('p, 'r) CommandQueue" where
  "get_nowait q =
     (case queue q of
        [] \<Rightarrow> (Returned_at_once None, q)
      | command # rest \<Rightarrow> (Returned_at_once (Some command), q\<lparr>queue := rest\<rparr>))"

definition get_with_timeout ::
  "real \<Rightarrow> ('p, 'r) CommandQueue \<Rightarrow> 'p Command polled \<times> ('p, 'r) CommandQueue" where
  "get_with_timeout timeout q =
     (case queue q of
        [] \<Rightarrow> (Returned_after_wait timeout, q)
      | command # rest \<Rightarrow> (Returned_at_once (Some command), q\<lparr>queue := rest\<rparr>))"

definition CommandQueue_get_next_command ::
  "real option \<Rightarrow> ('p, 'r) CommandQueue \<Rightarrow> 'p Command polled \<times> ('p, 'r) CommandQueue" where
  "CommandQueue_get_next_command timeout q =
     (case timeout of
        None \<Rightarrow> get_nowait q
      | Some t \<Rightarrow> if t \<le> 0 then get_nowait q else get_with_timeout t q)"

definition CommandQueue_set_result ::
  "string \<Rightarrow> 'r \<Rightarrow> ('p, 'r) CommandQueue \<Rightarrow> bool \<times> ('p, 'r) CommandQueue" where
  "CommandQueue_set_result command_id result q =
     (case map_of (pending q) command_id of
        None \<Rightarrow> (False, q)
      | Some (command, event) \<Rightarrow>
          (True, q\<lparr>results := AList.update command_id result (results q),
                   pending := AList.update command_id (command, True) (pending q)\<rparr>))"

text \<open>
  \<open>wait_for_result\<close> is modelled at the moment the wait ends. The flag \<open>fired\<close> says that
  \<open>asyncio.wait_for\<close> raised \<open>TimeoutError\<close>; without it the call returns once the event is
  set, and is still waiting otherwise.
\<close>

datatype 'r waited = KeyError | TimeoutError | Result "'r option" | Still_waiting

definition CommandQueue_wait_for_result ::
  "string \<Rightarrow> bool \<Rightarrow> ('p, 'r) CommandQueue \<Rightarrow> 'r waited \<times> ('p, 'r) CommandQueue" where
  "CommandQueue_wait_for_result command_id fired q =
     (case map_of (pending q) command_id of
        None \<Rightarrow> (KeyError, q)
      | Some (command, event) \<Rightarrow>
          if fired then (TimeoutError, q)
          else if event then
            (Result (map_of (results q) command_id),
             q\<lparr>results := AList.delete command_id (results q),
               pending := AList.delete command_id (pending q)\<rparr>)
          else (Still_waiting, q))"

definition get_pending_count :: "('p, 'r) CommandQueue \<Rightarrow> nat" where
  "get_pending_count q = length (pending q)"

definition remove_command ::
  "string \<Rightarrow> ('p, 'r) CommandQueue \<Rightarrow> bool \<times> ('p, 'r) CommandQueue" where
  "remove_command command_id q =
     (if has_key command_id (pending q)
      then (True, q\<lparr>pending := AList.delete command_id (pending q),
                    results := AList.delete command_id (results q)\<rparr>)
      else (False, q))"

subsection \<open>ChannelCommandQueue\<close>

record ('p, 'r) ChannelCommandQueue =
  channels :: "('p, 'r) CommandQueue dict"
  command_index :: "string dict"

definition ChannelCommandQueue_init :: "('p, 'r) ChannelCommandQueue" where
  "ChannelCommandQueue_init =
     \<lparr>channels = [(''default'', CommandQueue_init)], command_index = []\<rparr>"

definition ChannelCommandQueue_add_command ::
  "string \<Rightarrow> string \<Rightarrow> 'p \<Rightarrow> string \<Rightarrow> ('p, 'r) ChannelCommandQueue
   \<Rightarrow> string \<times> ('p, 'r) ChannelCommandQueue" where
  "ChannelCommandQueue_add_command channel tname tparams uuid4 s =
     (let chans = (if \<not> has_key channel (channels s)
                   then AList.update channel CommandQueue_init (channels s)
                   else channels s);
          q = (case map_of chans channel of None \<Rightarrow> CommandQueue_init | Some q0 \<Rightarrow> q0);
          (command_id, q') = CommandQueue_add_command uuid4 tname tparams q
      in (command_id,
          s\<lparr>channels := AList.update channel q' chans,
            command_index := AList.update command_id channel (command_index s)\<rparr>))"

text \<open>
  The poll loop. \<open>clock k\<close> is the value \<open>time.monotonic()\<close> returns at its \<open>k\<close>-th call
  within one poll: call \<open>0\<close> computes the deadline, call \<open>k\<close> opens the \<open>k\<close>-th iteration.
  Every iteration that does not return takes one command off the queue.
\<close>

definition current_timeout :: "real option \<Rightarrow> real option \<Rightarrow> real \<Rightarrow> real option option" where
  "current_timeout deadline timeout now =
     (case deadline of
        Some d \<Rightarrow> if d - now \<le> 0 then None else Some (Some (d - now))
      | None \<Rightarrow> Some timeout)"

function get_next_loop ::
  "real option \<Rightarrow> real option \<Rightarrow> (nat \<Rightarrow> real) \<Rightarrow> nat \<Rightarrow> string dict \<Rightarrow> ('p, 'r) CommandQueue
   \<Rightarrow> 'p Command option \<times> ('p, 'r) CommandQueue" where
  "get_next_loop deadline timeout clock k index q =
     (case current_timeout deadline timeout (clock k) of
        None \<Rightarrow> (None, q)
      | Some ct \<Rightarrow>
          (case polled_value (fst (CommandQueue_get_next_command ct q)) of
             None \<Rightarrow> (None, snd (CommandQueue_get_next_command ct q))
           | Some command \<Rightarrow>
               if has_key (cmd_id command) index
               then (Some command, snd (CommandQueue_get_next_command ct q))
               else get_next_loop deadline timeout clock (Suc k) index
                      (snd (CommandQueue_get_next_command ct q))))"
  by pat_completeness auto
termination
proof (relation "measure (\<lambda>(deadline, timeout, clock, k, index, q). length (queue q))")
  show "wf (measure (\<lambda>(deadline, timeout, clock, k, index, q). length (queue q)))"
    by simp
next
  fix deadline timeout :: "real option" and clock :: "nat \<Rightarrow> real" and k :: nat
    and index :: "string dict" and q :: "('p, 'r) CommandQueue" and ct :: "real option"
    and command :: "'p Command"
  assume "polled_value (fst (CommandQueue_get_next_command ct q)) = Some command"
  then have "length (queue (snd (CommandQueue_get_next_command ct q))) < length (queue q)"
    by (auto simp: CommandQueue_get_next_command_def get_nowait_def get_with_timeout_def
        split: option.splits list.splits if_splits)
  then show "((deadline, timeout, clock, Suc k, index, snd (CommandQueue_get_next_command ct q)),
              (deadline, timeout, clock, k, index, q))
             \<in> measure (\<lambda>(deadline, timeout, clock, k, index, q). length (queue q))"
    by simp
qed

declare get_next_loop.simps [simp del]

definition poll_deadline :: "real option \<Rightarrow> real \<Rightarrow> real option" where
  "poll_deadline timeout now =
     (case timeout of None \<Rightarrow> None | Some t \<Rightarrow> if t = 0 then None else Some (now + t))"

definition ChannelCommandQueue_get_next_command ::
  "string \<Rightarrow> real option \<Rightarrow> (nat \<Rightarrow> real) \<Rightarrow> ('p, 'r) ChannelCommandQueue
   \<Rightarrow> 'p Command option \<times> ('p, 'r) ChannelCommandQueue" where
  "ChannelCommandQueue_get_next_command channel timeout clock s =
     (case map_of (channels s) channel of
        None \<Rightarrow> (None, s)
      | Some q \<Rightarrow>
          (let deadline = poll_deadline timeout (clock 0);
               (command, q') = get_next_loop deadline timeout clock 1 (command_index s) q
           in (command, s\<lparr>channels := AList.update channel q' (channels s)\<rparr>)))"

definition ChannelCommandQueue_set_result ::
  "string \<Rightarrow> 'r \<Rightarrow> ('p, 'r) ChannelCommandQueue \<Rightarrow> bool \<times> ('p, 'r) ChannelCommandQueue" where
  "ChannelCommandQueue_set_result command_id result s =
     (case map_of (command_index s) command_id of
        None \<Rightarrow> (False, s)
      | Some channel \<Rightarrow>
          (case map_of (channels s) channel of
             None \<Rightarrow> (False, s)
           | Some q \<Rightarrow>
               (let (found, q') = CommandQueue_set_result command_id result q
                in (found, s\<lparr>channels := AList.update channel q' (channels s)\<rparr>))))"

definition ChannelCommandQueue_wait_for_result ::
  "string \<Rightarrow> bool \<Rightarrow> ('p, 'r) ChannelCommandQueue \<Rightarrow> 'r waited \<times> ('p, 'r) ChannelCommandQueue" where
  "ChannelCommandQueue_wait_for_result command_id fired s =
     (case map_of (command_index s) command_id of
        None \<Rightarrow> (KeyError, s)
      | Some channel \<Rightarrow>
          (case map_of (channels s) channel of
             None \<Rightarrow> (KeyError, s)
           | Some q \<Rightarrow>
               (case CommandQueue_wait_for_result command_id fired q of
                  (Result result, q') \<Rightarrow>
                    (Result result,
                     s\<lparr>channels := AList.update channel q' (channels s),
                       command_index := AList.delete command_id (command_index s)\<rparr>)
                | (TimeoutError, q') \<Rightarrow>
                    (TimeoutError,
                     s\<lparr>command_index := AList.delete command_id (command_index s),
                       channels := AList.update channel (snd (remove_command command_id q'))
                                     (channels s)\<rparr>)
                | (KeyError, q') \<Rightarrow> (KeyError, s)
                | (Still_waiting, q') \<Rightarrow> (Still_waiting, s))))"

definition get_stats :: "('p, 'r) ChannelCommandQueue \<Rightarrow> nat dict" where
  "get_stats s =
     foldl (\<lambda>stats (channel, q).
              if get_pending_count q > 0 then AList.update channel (get_pending_count q) stats
              else stats)
       [] (channels s)"

subsection \<open>Histories of calls\<close>

text \<open>
  A history is the list of calls made on the global \<open>channel_command_queue\<close>, in the order
  in which they take effect. The last argument of \<open>Add_command\<close> is the UUID drawn for the
  new command.
\<close>

datatype ('p, 'r) call =
    Add_command string string 'p string
  | Get_next_command string "real option" "nat \<Rightarrow> real"
  | Set_result string 'r
  | Wait_for_result string bool
  | Get_stats

fun step :: "('p, 'r) call \<Rightarrow> ('p, 'r) ChannelCommandQueue \<Rightarrow> ('p, 'r) ChannelCommandQueue" where
  "step (Add_command channel tname tparams uuid4) s = snd (ChannelCommandQueue_add_command channel tname tparams uuid4 s)"
| "step (Get_next_command channel timeout clock) s =
     snd (ChannelCommandQueue_get_next_command channel timeout clock s)"
| "step (Set_result command_id result) s = snd (ChannelCommandQueue_set_result command_id result s)"
| "step (Wait_for_result command_id fired) s =
     snd (ChannelCommandQueue_wait_for_result command_id fired s)"
| "step Get_stats s = s"

definition exec ::
  "('p, 'r) call list \<Rightarrow> ('p, 'r) ChannelCommandQueue \<Rightarrow> ('p, 'r) ChannelCommandQueue" where
  "exec calls s = foldl (\<lambda>s c. step c s) s calls"

text \<open>The commands submitted to a channel by a history, in submission order.\<close>

fun submitted :: "string \<Rightarrow> ('p, 'r) call list \<Rightarrow> 'p Command list" where
  "submitted channel [] = []"
| "submitted channel (Add_command ch tname tparams uuid4 # calls) =
     (if ch = channel
      then \<lparr>cmd_id = uuid4, tool = tname, params = tparams\<rparr> # submitted channel calls
      else submitted channel calls)"
| "submitted channel (c # calls) = submitted channel calls"

text \<open>The UUIDs drawn by a history.\<close>

fun drawn_ids :: "('p, 'r) call list \<Rightarrow> string list" where
  "drawn_ids [] = []"
| "drawn_ids (Add_command ch tname tparams uuid4 # calls) = uuid4 # drawn_ids calls"
| "drawn_ids (c # calls) = drawn_ids calls"

definition queue_of :: "string \<Rightarrow> ('p, 'r) ChannelCommandQueue \<Rightarrow> 'p Command list" where
  "queue_of channel s = (case map_of (channels s) channel of None \<Rightarrow> [] | Some q \<Rightarrow> queue q)"

text \<open>The queue object of a channel; a channel without one gets a new, empty queue.\<close>

definition channel_queue :: "string \<Rightarrow> ('p, 'r) ChannelCommandQueue \<Rightarrow> ('p, 'r) CommandQueue" where
  "channel_queue channel s =
     (case map_of (channels s) channel of None \<Rightarrow> CommandQueue_init | Some q \<Rightarrow> q)"

text \<open>The queued commands a poll may deliver: those whose id is in the index.\<close>

definition deliverable :: "string dict \<Rightarrow> 'p Command list \<Rightarrow> 'p Command list" where
  "deliverable index cmds = filter (\<lambda>c. has_key (cmd_id c) index) cmds"

text \<open>
  A poll does not run out of time when it has no deadline (timeout \<open>None\<close> or \<open>0\<close>) or when
  every clock reading after the first stays before the deadline.
\<close>

definition no_expiry :: "real option \<times> (nat \<Rightarrow> real) \<Rightarrow> bool" where
  "no_expiry poll =
     (case fst poll of
        None \<Rightarrow> True
      | Some t \<Rightarrow> t = 0 \<or> (\<forall>k. snd poll (Suc k) < snd poll 0 + t))"

definition steady_clock :: "real \<Rightarrow> nat \<Rightarrow> real" where
  "steady_clock now k = now"

fun poll_many ::
  "string \<Rightarrow> (real option \<times> (nat \<Rightarrow> real)) list \<Rightarrow> ('p, 'r) ChannelCommandQueue
   \<Rightarrow> 'p Command option list \<times> ('p, 'r) ChannelCommandQueue" where
  "poll_many channel [] s = ([], s)"
| "poll_many channel (poll # polls) s =
     (let (command, s') = ChannelCommandQueue_get_next_command channel (fst poll) (snd poll) s;
          (commands, s'') = poll_many channel polls s'
      in (command # commands, s''))"

subsection \<open>Example states\<close>

text \<open>Two commands submitted to the channel \<open>alpha\<close> of a new queue.\<close>

definition submitted_twice :: "(unit, nat) ChannelCommandQueue" where
  "submitted_twice =
     exec [Add_command ''alpha'' ''execute_query'' () ''id-1'',
           Add_command ''alpha'' ''execute_code'' () ''id-2'']
       ChannelCommandQueue_init"

section \<open>Channel normalisation\<close>

lemma strip_empty_iff: "strip s = [] \<longleftrightarrow> list_all isspace s"
proof
  assume "strip s = []"
  then have all_rest: "\<forall>c \<in> set (dropWhile isspace s). isspace c"
    by (simp add: strip_def)
  have "dropWhile isspace s = []"
  proof (rule ccontr)
    assume ne: "dropWhile isspace s \<noteq> []"
    then have "\<not> isspace (hd (dropWhile isspace s))"
      by (rule hd_dropWhile)
    moreover have "hd (dropWhile isspace s) \<in> set (dropWhile isspace s)"
      using ne by simp
    ultimately show False
      using all_rest by blast
  qed
  then show "list_all isspace s"
    by (simp add: list_all_iff)
next
  assume "list_all isspace s"
  then show "strip s = []"
    by (auto simp: strip_def list_all_iff dest: set_dropWhileD)
qed

lemma strip_last_not_space:
  assumes "strip s \<noteq> []"
  shows "\<not> isspace (last (strip s))"
proof -
  let ?r = "dropWhile isspace (rev (dropWhile isspace s))"
  from assms have ne: "?r \<noteq> []"
    by (simp add: strip_def)
  then have "\<not> isspace (hd ?r)"
    by (rule hd_dropWhile)
  moreover have "last (strip s) = hd ?r"
    using ne by (simp add: strip_def last_rev)
  ultimately show ?thesis
    by simp
qed

lemma isspace_line_feed: "isspace (CHR 0x0A)"
  by (simp add: isspace_def)

lemma pattern_match_on_stripped:
  "CHANNEL_ID_PATTERN_match (strip s) = channel_grammar (strip s)"
proof (cases "strip s = []")
  case True
  then show ?thesis
    by (simp add: CHANNEL_ID_PATTERN_match_def)
next
  case False
  then have "last (strip s) \<noteq> CHR 0x0A"
    using strip_last_not_space [OF False] isspace_line_feed by metis
  then show ?thesis
    by (simp add: CHANNEL_ID_PATTERN_match_def)
qed

lemma channel_grammar_Nil: "\<not> channel_grammar []"
  by (simp add: channel_grammar_def)

lemma validate_channel_id_cases:
  "validate_channel_id s =
     (if channel_grammar (strip s) then strip s else DEFAULT_CHANNEL)"
proof (cases "strip s = []")
  case True
  then show ?thesis
    by (simp add: validate_channel_id_def channel_grammar_Nil)
next
  case False
  then have "s \<noteq> []"
    by (auto simp: strip_def)
  with False show ?thesis
    by (simp add: validate_channel_id_def pattern_match_on_stripped)
qed

text \<open>
  Claim C4, as stated: \<open>validate_channel_id s\<close> is \<open>"default"\<close> if and only if \<open>s\<close> is empty,
  whitespace-only, or its trimmed form fails the grammar. The input \<open>"default"\<close> is none of
  the three and is still mapped to \<open>"default"\<close>: the literal is itself a well-formed
  channel id.
\<close>

theorem validate_channel_id_default_counterexample:
  "\<not> (validate_channel_id ''default'' = DEFAULT_CHANNEL
       \<longleftrightarrow> (''default'' = [] \<or> whitespace_only ''default''
            \<or> \<not> channel_grammar (strip ''default'')))"
  by (simp add: validate_channel_id_cases DEFAULT_CHANNEL_def whitespace_only_def strip_def
      isspace_def channel_grammar_def channel_char_def)

text \<open>
  Claim C4, amended: \<open>validate_channel_id s\<close> is \<open>"default"\<close> when \<open>s\<close> is empty,
  whitespace-only, or its trimmed form fails the grammar \<open>[A-Za-z0-9_-]{1,64}\<close>; otherwise it
  is \<open>s\<close> with the surrounding whitespace trimmed. Hence the result is \<open>"default"\<close> if and
  only if one of the three holds or the trimmed input is the literal \<open>"default"\<close> itself.
\<close>

theorem validate_channel_id_normalises:
  "validate_channel_id s =
     (if s = [] \<or> whitespace_only s \<or> \<not> channel_grammar (strip s)
      then DEFAULT_CHANNEL else strip s)
   \<and> (validate_channel_id s = DEFAULT_CHANNEL
        \<longleftrightarrow> (s = [] \<or> whitespace_only s \<or> \<not> channel_grammar (strip s)
             \<or> strip s = DEFAULT_CHANNEL))"
proof -
  have empty: "s = [] \<Longrightarrow> \<not> channel_grammar (strip s)"
    by (simp add: strip_def channel_grammar_Nil)
  have blank: "whitespace_only s \<Longrightarrow> \<not> channel_grammar (strip s)"
    using strip_empty_iff [of s] by (auto simp: whitespace_only_def channel_grammar_Nil)
  show ?thesis
    using empty blank by (auto simp: validate_channel_id_cases)
qed

theorem validate_channel_id_normalises_witness:
  "validate_channel_id '' ops-1 '' = ''ops-1''
   \<and> validate_channel_id ''a b'' = ''default''
   \<and> validate_channel_id ''   '' = ''default''
   \<and> validate_channel_id '' default'' = ''default''"
  using validate_channel_id_normalises [of "'' ops-1 ''"]
    validate_channel_id_normalises [of "''a b''"]
    validate_channel_id_normalises [of "''   ''"]
    validate_channel_id_normalises [of "'' default''"]
  by (simp add: DEFAULT_CHANNEL_def whitespace_only_def strip_def isspace_def
      channel_grammar_def channel_char_def)

section \<open>The poll loop\<close>

lemma get_value:
  "polled_value (fst (CommandQueue_get_next_command ct q)) =
     (case queue q of [] \<Rightarrow> None | c # rest \<Rightarrow> Some c)"
  by (simp add: CommandQueue_get_next_command_def get_nowait_def get_with_timeout_def
      split: option.splits list.splits)

lemma get_state:
  "snd (CommandQueue_get_next_command ct q) = q\<lparr>queue := tl (queue q)\<rparr>"
  by (simp add: CommandQueue_get_next_command_def get_nowait_def get_with_timeout_def
      split: option.splits list.splits)

lemma get_next_loop_unfold:
  "get_next_loop deadline timeout clock k index q =
     (case current_timeout deadline timeout (clock k) of
        None \<Rightarrow> (None, q)
      | Some ct \<Rightarrow>
          (case queue q of
             [] \<Rightarrow> (None, q)
           | c # rest \<Rightarrow>
               if has_key (cmd_id c) index then (Some c, q\<lparr>queue := rest\<rparr>)
               else get_next_loop deadline timeout clock (Suc k) index (q\<lparr>queue := rest\<rparr>)))"
  by (subst get_next_loop.simps) (simp add: get_value get_state split: option.splits list.splits)


lemma get_next_loop_Nil:
  "queue q = [] \<Longrightarrow> get_next_loop deadline timeout clock k index q = (None, q)"
  by (subst get_next_loop_unfold) (simp split: option.splits)

lemma get_next_loop_Cons:
  "queue q = c # rest \<Longrightarrow>
   get_next_loop deadline timeout clock k index q =
     (if current_timeout deadline timeout (clock k) = None then (None, q)
      else if has_key (cmd_id c) index then (Some c, q\<lparr>queue := rest\<rparr>)
      else get_next_loop deadline timeout clock (Suc k) index (q\<lparr>queue := rest\<rparr>))"
  by (subst get_next_loop_unfold) (simp split: option.splits)

lemma get_next_loop_frame:
  "snd (get_next_loop deadline timeout clock k index q) =
     q\<lparr>queue := queue (snd (get_next_loop deadline timeout clock k index q))\<rparr>"
proof (induction xs \<equiv> "queue q" arbitrary: q k)
  case Nil
  then show ?case by (simp add: get_next_loop_Nil [OF sym])
next
  case (Cons c rest)
  have q: "queue q = c # rest" using Cons.hyps(2) by simp
  have "rest = queue (q\<lparr>queue := rest\<rparr>)" by simp
  from Cons.hyps(1) [OF this, of "Suc k"] show ?case
    by (simp add: get_next_loop_Cons [OF q])
qed

lemma get_next_loop_suffix:
  "suffix (queue (snd (get_next_loop deadline timeout clock k index q))) (queue q)"
proof (induction xs \<equiv> "queue q" arbitrary: q k)
  case Nil
  then show ?case by (simp add: get_next_loop_Nil [OF sym])
next
  case (Cons c rest)
  have q: "queue q = c # rest" using Cons.hyps(2) by simp
  have "rest = queue (q\<lparr>queue := rest\<rparr>)" by simp
  from Cons.hyps(1) [OF this, of "Suc k"] show ?case
    by (simp add: get_next_loop_Cons [OF q] q suffix_ConsI)
qed

lemma get_next_loop_Some:
  "fst (get_next_loop deadline timeout clock k index q) = Some c \<Longrightarrow>
   has_key (cmd_id c) index \<and> c \<in> set (queue q)"
proof (induction xs \<equiv> "queue q" arbitrary: q k)
  case Nil
  then show ?case by (simp add: get_next_loop_Nil [OF sym])
next
  case (Cons d rest)
  have q: "queue q = d # rest" using Cons.hyps(2) by simp
  have "rest = queue (q\<lparr>queue := rest\<rparr>)" by simp
  from Cons.hyps(1) [OF this, of "Suc k"] Cons.prems show ?case
    by (auto simp: get_next_loop_Cons [OF q] q split: if_splits)
qed


lemma get_next_loop_no_expiry:
  assumes "\<forall>j. current_timeout deadline timeout (clock (k + j)) \<noteq> None"
  shows "get_next_loop deadline timeout clock k index q =
     (case deliverable index (queue q) of
        [] \<Rightarrow> (None, q\<lparr>queue := []\<rparr>)
      | c # rest \<Rightarrow>
          (Some c, q\<lparr>queue := tl (dropWhile (\<lambda>c. \<not> has_key (cmd_id c) index) (queue q))\<rparr>))"
  using assms
proof (induction xs \<equiv> "queue q" arbitrary: q k)
  case Nil
  then show ?case by (simp add: get_next_loop_Nil [OF sym] deliverable_def)
next
  case (Cons d rest)
  have q: "queue q = d # rest" using Cons.hyps(2) by simp
  have now: "current_timeout deadline timeout (clock k) \<noteq> None"
    using Cons.prems [rule_format, of 0] by simp
  have later: "\<forall>j. current_timeout deadline timeout (clock (Suc k + j)) \<noteq> None"
    using Cons.prems by (metis add_Suc_shift)
  have unfold: "get_next_loop deadline timeout clock k index q =
      (if has_key (cmd_id d) index then (Some d, q\<lparr>queue := rest\<rparr>)
       else get_next_loop deadline timeout clock (Suc k) index (q\<lparr>queue := rest\<rparr>))"
    using now by (auto simp: get_next_loop_Cons [OF q])
  show ?case
  proof (cases "has_key (cmd_id d) index")
    case True
    then show ?thesis
      by (simp add: unfold q deliverable_def)
  next
    case False
    have "rest = queue (q\<lparr>queue := rest\<rparr>)" by simp
    from Cons.hyps(1) [OF this later] False show ?thesis
      by (simp add: unfold q deliverable_def split: list.splits)
  qed
qed

section \<open>Calls on the channel queues\<close>

lemma poll_unknown_channel:
  "map_of (channels s) channel = None \<Longrightarrow>
   ChannelCommandQueue_get_next_command channel timeout clock s = (None, s)"
  by (simp add: ChannelCommandQueue_get_next_command_def)

lemma poll_known_channel:
  "map_of (channels s) channel = Some q \<Longrightarrow>
   ChannelCommandQueue_get_next_command channel timeout clock s =
     (fst (get_next_loop (poll_deadline timeout (clock 0)) timeout clock 1 (command_index s) q),
      s\<lparr>channels := AList.update channel
          (snd (get_next_loop (poll_deadline timeout (clock 0)) timeout clock 1 (command_index s) q))
          (channels s)\<rparr>)"
  by (simp add: ChannelCommandQueue_get_next_command_def split: prod.splits)

lemma poll_index [simp]:
  "command_index (snd (ChannelCommandQueue_get_next_command channel timeout clock s)) =
   command_index s"
  by (cases "map_of (channels s) channel") (simp_all add: poll_unknown_channel poll_known_channel)

lemma poll_queue_suffix:
  "suffix (queue_of c (snd (ChannelCommandQueue_get_next_command channel timeout clock s)))
     (queue_of c s)"
  by (cases "map_of (channels s) channel")
    (simp_all add: poll_unknown_channel poll_known_channel queue_of_def update_conv'
      get_next_loop_suffix)

lemma poll_delivers_queued:
  assumes "fst (ChannelCommandQueue_get_next_command channel timeout clock s) = Some c"
  shows "c \<in> set (queue_of channel s) \<and> has_key (cmd_id c) (command_index s)"
proof (cases "map_of (channels s) channel")
  case None
  with assms show ?thesis by (simp add: poll_unknown_channel)
next
  case (Some q)
  with assms show ?thesis
    using get_next_loop_Some [of "poll_deadline timeout (clock 0)" timeout clock 1 "command_index s" q c]
    by (simp add: poll_known_channel queue_of_def)
qed

lemma add_command_unfold:
  "ChannelCommandQueue_add_command channel tname tparams uuid4 s =
     (uuid4,
      s\<lparr>channels :=
          AList.update channel
            (snd (CommandQueue_add_command uuid4 tname tparams (channel_queue channel s)))
            (channels s),
        command_index := AList.update uuid4 channel (command_index s)\<rparr>)"
proof (cases "map_of (channels s) channel")
  case None
  then show ?thesis
    by (simp add: ChannelCommandQueue_add_command_def CommandQueue_add_command_def
        channel_queue_def has_key_def update_conv' Let_def)
next
  case (Some q)
  then show ?thesis
    by (simp add: ChannelCommandQueue_add_command_def CommandQueue_add_command_def
        channel_queue_def has_key_def Let_def)
qed

lemma add_command_queue_of:
  "queue_of c (snd (ChannelCommandQueue_add_command channel tname tparams uuid4 s)) =
   queue_of c s @
     (if channel = c then [\<lparr>cmd_id = uuid4, tool = tname, params = tparams\<rparr>] else [])"
  by (cases "map_of (channels s) c")
    (simp_all add: add_command_unfold CommandQueue_add_command_def queue_of_def
      channel_queue_def update_conv' CommandQueue_init_def Let_def)

lemma add_command_index:
  "command_index (snd (ChannelCommandQueue_add_command channel tname tparams uuid4 s)) =
   AList.update uuid4 channel (command_index s)"
  by (simp add: add_command_unfold)

lemma set_result_queue_of [simp]:
  "queue_of c (snd (ChannelCommandQueue_set_result command_id result s)) = queue_of c s"
  by (auto simp: ChannelCommandQueue_set_result_def CommandQueue_set_result_def queue_of_def
      update_conv' split: option.splits prod.splits)

lemma set_result_index [simp]:
  "command_index (snd (ChannelCommandQueue_set_result command_id result s)) = command_index s"
  by (auto simp: ChannelCommandQueue_set_result_def CommandQueue_set_result_def
      split: option.splits prod.splits)

lemma wait_for_result_queue_of [simp]:
  "queue_of c (snd (ChannelCommandQueue_wait_for_result command_id fired s)) = queue_of c s"
  by (auto simp: ChannelCommandQueue_wait_for_result_def CommandQueue_wait_for_result_def
      remove_command_def queue_of_def update_conv' split: option.splits prod.splits waited.splits)

lemma wait_for_result_index:
  "map_of (command_index (snd (ChannelCommandQueue_wait_for_result command_id fired s))) x = None
   \<longleftrightarrow> map_of (command_index s) x = None
      \<or> (x = command_id \<and> fst (ChannelCommandQueue_wait_for_result command_id fired s)
                              \<in> {TimeoutError} \<union> range Result)"
  by (auto simp: ChannelCommandQueue_wait_for_result_def CommandQueue_wait_for_result_def
      remove_command_def delete_conv' split: option.splits prod.splits waited.splits if_splits)

section \<open>Histories\<close>

lemma exec_Nil [simp]: "exec [] s = s"
  by (simp add: exec_def)

lemma exec_Cons [simp]: "exec (c # calls) s = exec calls (step c s)"
  by (simp add: exec_def)

lemma exec_append: "exec (xs @ ys) s = exec ys (exec xs s)"
  by (simp add: exec_def)

lemma submitted_Cons: "submitted channel (c # calls) = submitted channel [c] @ submitted channel calls"
  by (cases c) simp_all

lemma drawn_ids_Cons: "drawn_ids (c # calls) = drawn_ids [c] @ drawn_ids calls"
  by (cases c) simp_all

lemma submitted_append: "submitted channel (xs @ ys) = submitted channel xs @ submitted channel ys"
proof (induction xs)
  case Nil
  show ?case by simp
next
  case (Cons c xs)
  then show ?case by (cases c) simp_all
qed

lemma drawn_ids_append: "drawn_ids (xs @ ys) = drawn_ids xs @ drawn_ids ys"
proof (induction xs)
  case Nil
  show ?case by simp
next
  case (Cons c xs)
  then show ?case by (cases c) simp_all
qed

lemma step_queue_suffix:
  "suffix (queue_of channel (step c s)) (queue_of channel s @ submitted channel [c])"
proof (cases c)
  case (Add_command ch tname tparams uuid4)
  then show ?thesis by (simp add: add_command_queue_of)
next
  case (Get_next_command ch timeout clock)
  then show ?thesis by (simp add: poll_queue_suffix)
qed simp_all

lemma exec_queue_suffix:
  "suffix (queue_of channel (exec calls s)) (queue_of channel s @ submitted channel calls)"
proof (induction calls arbitrary: s)
  case Nil
  show ?case by simp
next
  case (Cons c calls)
  have "suffix (queue_of channel (exec calls (step c s)))
          (queue_of channel (step c s) @ submitted channel calls)"
    by (rule Cons.IH)
  moreover have "suffix (queue_of channel (step c s) @ submitted channel calls)
          ((queue_of channel s @ submitted channel [c]) @ submitted channel calls)"
    using step_queue_suffix [of channel c s] by (simp only: same_suffix_suffix)
  ultimately have "suffix (queue_of channel (exec calls (step c s)))
          ((queue_of channel s @ submitted channel [c]) @ submitted channel calls)"
    by (rule suffix_order.trans)
  then have "suffix (queue_of channel (exec calls (step c s)))
          (queue_of channel s @ submitted channel (c # calls))"
    by (simp only: append_assoc submitted_Cons [of channel c calls])
  then show ?case
    by (simp only: exec_Cons)
qed

lemma queue_of_init [simp]: "queue_of channel ChannelCommandQueue_init = []"
  by (simp add: queue_of_def ChannelCommandQueue_init_def CommandQueue_init_def)

lemma queue_suffix_submitted:
  "suffix (queue_of channel (exec calls ChannelCommandQueue_init)) (submitted channel calls)"
  using exec_queue_suffix [of channel calls ChannelCommandQueue_init] by simp

lemma submitted_iff:
  "c \<in> set (submitted channel calls)
   \<longleftrightarrow> Add_command channel (tool c) (params c) (cmd_id c) \<in> set calls"
proof (induction calls)
  case Nil
  show ?case by simp
next
  case (Cons a calls)
  then show ?case by (cases a) auto
qed

lemma Add_command_drawn:
  "Add_command channel tname tparams x \<in> set calls \<Longrightarrow> x \<in> set (drawn_ids calls)"
proof (induction calls)
  case Nil
  then show ?case by simp
next
  case (Cons a calls)
  then show ?case by (cases a) auto
qed

lemma distinct_draws_one_channel:
  assumes "distinct (drawn_ids calls)"
    and "Add_command a tname tparams x \<in> set calls"
    and "Add_command b tname' tparams' x \<in> set calls"
  shows "a = b"
  using assms
proof (induction calls)
  case Nil
  then show ?case by simp
next
  case (Cons c calls)
  show ?case
  proof (cases c)
    case (Add_command ch tn tp y)
    show ?thesis
    proof (cases "y = x")
      case True
      with Add_command Cons.prems(1) have fresh: "x \<notin> set (drawn_ids calls)"
        by simp
      then have "Add_command a tname tparams x \<notin> set calls"
        and "Add_command b tname' tparams' x \<notin> set calls"
        by (auto dest: Add_command_drawn)
      with Cons.prems(2,3) Add_command show ?thesis
        by simp
    next
      case False
      with Add_command Cons.prems have "distinct (drawn_ids calls)"
        and "Add_command a tname tparams x \<in> set calls"
        and "Add_command b tname' tparams' x \<in> set calls"
        by simp_all
      then show ?thesis by (rule Cons.IH)
    qed
  next
    case (Get_next_command ch timeout clock)
    with Cons.prems have "distinct (drawn_ids calls)"
      and "Add_command a tname tparams x \<in> set calls"
      and "Add_command b tname' tparams' x \<in> set calls"
      by simp_all
    then show ?thesis by (rule Cons.IH)
  next
    case (Set_result y r)
    with Cons.prems have "distinct (drawn_ids calls)"
      and "Add_command a tname tparams x \<in> set calls"
      and "Add_command b tname' tparams' x \<in> set calls"
      by simp_all
    then show ?thesis by (rule Cons.IH)
  next
    case (Wait_for_result y fired)
    with Cons.prems have "distinct (drawn_ids calls)"
      and "Add_command a tname tparams x \<in> set calls"
      and "Add_command b tname' tparams' x \<in> set calls"
      by simp_all
    then show ?thesis by (rule Cons.IH)
  next
    case Get_stats
    with Cons.prems have "distinct (drawn_ids calls)"
      and "Add_command a tname tparams x \<in> set calls"
      and "Add_command b tname' tparams' x \<in> set calls"
      by simp_all
    then show ?thesis by (rule Cons.IH)
  qed
qed

text \<open>
  Claim C1 (channel isolation). After any history of calls on a new
  \<open>ChannelCommandQueue\<close>, a command that a poll on channel \<open>a\<close> returns was submitted by
  an \<open>add_command\<close> on \<open>a\<close>; and, the drawn UUIDs being distinct, no \<open>add_command\<close> on
  another channel \<open>b\<close> submitted a command of that id.
\<close>

theorem channel_isolation:
  assumes "fst (ChannelCommandQueue_get_next_command a timeout clock
                  (exec calls ChannelCommandQueue_init)) = Some c"
  shows "Add_command a (tool c) (params c) (cmd_id c) \<in> set calls
       \<and> (\<forall>b tname tparams. distinct (drawn_ids calls) \<longrightarrow> b \<noteq> a
            \<longrightarrow> Add_command b tname tparams (cmd_id c) \<notin> set calls)"
proof -
  from assms have "c \<in> set (queue_of a (exec calls ChannelCommandQueue_init))"
    by (simp add: poll_delivers_queued)
  then have "c \<in> set (submitted a calls)"
    using set_mono_suffix [OF queue_suffix_submitted [of a calls]] by blast
  then have sub: "Add_command a (tool c) (params c) (cmd_id c) \<in> set calls"
    by (simp add: submitted_iff)
  have "b = a" if "distinct (drawn_ids calls)"
      and "Add_command b tname tparams (cmd_id c) \<in> set calls" for b tname tparams
    using that(1) that(2) sub by (rule distinct_draws_one_channel)
  with sub show ?thesis
    by blast
qed

lemma get_next_loop_eval_Nil:
  "get_next_loop deadline timeout clock k index \<lparr>pending = p, results = r, queue = []\<rparr> =
     (None, \<lparr>pending = p, results = r, queue = []\<rparr>)"
  by (simp add: get_next_loop_Nil)

lemma get_next_loop_eval_Cons:
  "get_next_loop deadline timeout clock k index \<lparr>pending = p, results = r, queue = c # rest\<rparr> =
     (if current_timeout deadline timeout (clock k) = None
      then (None, \<lparr>pending = p, results = r, queue = c # rest\<rparr>)
      else if has_key (cmd_id c) index then (Some c, \<lparr>pending = p, results = r, queue = rest\<rparr>)
      else get_next_loop deadline timeout clock (Suc k) index
             \<lparr>pending = p, results = r, queue = rest\<rparr>)"
  by (simp add: get_next_loop_Cons [of _ c rest])

lemmas queue_eval =
  exec_Nil exec_Cons step.simps add_command_unfold channel_queue_def
  CommandQueue_add_command_def ChannelCommandQueue_init_def CommandQueue_init_def
  ChannelCommandQueue_get_next_command_def poll_deadline_def current_timeout_def
  get_next_loop_eval_Nil get_next_loop_eval_Cons has_key_def steady_clock_def
  ChannelCommandQueue_set_result_def CommandQueue_set_result_def
  ChannelCommandQueue_wait_for_result_def CommandQueue_wait_for_result_def
  remove_command_def Let_def

theorem channel_isolation_witness:
  "fst (ChannelCommandQueue_get_next_command ''alpha'' None (steady_clock 0)
         (exec [Add_command ''alpha'' ''execute_query'' () ''id-1'',
                Add_command ''beta'' ''execute_code'' () ''id-2'']
            (ChannelCommandQueue_init :: (unit, nat) ChannelCommandQueue)))
     = Some \<lparr>cmd_id = ''id-1'', tool = ''execute_query'', params = ()\<rparr>
   \<and> Add_command ''alpha'' ''execute_query'' () ''id-1''
       \<in> set [Add_command ''alpha'' ''execute_query'' () ''id-1'',
               Add_command ''beta'' ''execute_code'' () ''id-2'' :: (unit, nat) call]
   \<and> Add_command ''beta'' ''execute_code'' () ''id-1''
       \<notin> set [Add_command ''alpha'' ''execute_query'' () ''id-1'',
               Add_command ''beta'' ''execute_code'' () ''id-2'' :: (unit, nat) call]"
proof -
  let ?calls = "[Add_command ''alpha'' ''execute_query'' () ''id-1'',
                 Add_command ''beta'' ''execute_code'' () ''id-2'' :: (unit, nat) call]"
  have polled: "fst (ChannelCommandQueue_get_next_command ''alpha'' None (steady_clock 0)
         (exec ?calls ChannelCommandQueue_init))
     = Some \<lparr>cmd_id = ''id-1'', tool = ''execute_query'', params = ()\<rparr>"
    by (simp add: queue_eval)
  from channel_isolation [OF polled] polled show ?thesis
    by simp
qed

text \<open>
  Claim C10. \<open>CommandQueue.get_next_command\<close> with timeout \<open>None\<close> or a timeout that is
  not positive returns at once: the head of the queue, which it removes, or \<open>None\<close> when
  the queue is empty. It never takes the branch that waits.
\<close>

theorem get_next_command_never_waits:
  assumes "timeout = None \<or> (\<exists>t. timeout = Some t \<and> t \<le> 0)"
  shows "CommandQueue_get_next_command timeout q =
           (case queue q of
              [] \<Rightarrow> (Returned_at_once None, q)
            | command # rest \<Rightarrow> (Returned_at_once (Some command), q\<lparr>queue := rest\<rparr>))"
  using assms by (auto simp: CommandQueue_get_next_command_def get_nowait_def)

theorem get_next_command_never_waits_witness:
  "CommandQueue_get_next_command (Some (- 1))
     (\<lparr>pending = [], results = [],
       queue = [\<lparr>cmd_id = ''id-1'', tool = ''get_metadata'', params = ()\<rparr>]\<rparr>
      :: (unit, nat) CommandQueue)
   = (Returned_at_once (Some \<lparr>cmd_id = ''id-1'', tool = ''get_metadata'', params = ()\<rparr>),
      \<lparr>pending = [], results = [], queue = []\<rparr>)
   \<and> CommandQueue_get_next_command None (CommandQueue_init :: (unit, nat) CommandQueue)
     = (Returned_at_once None, CommandQueue_init)"
  using get_next_command_never_waits [of "Some (- 1)"
      "\<lparr>pending = [], results = [],
        queue = [\<lparr>cmd_id = ''id-1'', tool = ''get_metadata'', params = ()\<rparr>]\<rparr>
       :: (unit, nat) CommandQueue"]
    get_next_command_never_waits [of None "CommandQueue_init :: (unit, nat) CommandQueue"]
  by (simp add: CommandQueue_init_def)

section \<open>Completing a command\<close>

text \<open>
  Claim C3, as stated: a second \<open>set_result\<close> for a command whose result was already set
  returns false, even if the submitter has not yet consumed the result. On a queue with one
  submitted command the first \<open>set_result\<close> returns true and so does the second: the only
  test is membership in \<open>_pending\<close>, and \<open>set_result\<close> leaves the command there.
\<close>

theorem set_result_twice_counterexample:
  "fst (CommandQueue_set_result ''id-1'' (1::nat)
         (snd (CommandQueue_add_command ''id-1'' ''execute_query'' () CommandQueue_init)))
   \<and> fst (CommandQueue_set_result ''id-1'' (2::nat)
           (snd (CommandQueue_set_result ''id-1'' (1::nat)
                  (snd (CommandQueue_add_command ''id-1'' ''execute_query'' ()
                         CommandQueue_init))))) \<noteq> False"
  by (simp add: CommandQueue_set_result_def CommandQueue_add_command_def CommandQueue_init_def
      Let_def)

lemma CommandQueue_set_result_found:
  "fst (CommandQueue_set_result command_id result q) = has_key command_id (pending q)"
  by (simp add: CommandQueue_set_result_def has_key_def split: option.splits)

lemma CommandQueue_set_result_pending:
  "has_key x (pending (snd (CommandQueue_set_result command_id result q))) = has_key x (pending q)"
  by (auto simp: CommandQueue_set_result_def has_key_def update_conv' split: option.splits)

lemma CommandQueue_set_result_stored:
  "has_key command_id (pending q) \<Longrightarrow>
   map_of (results (snd (CommandQueue_set_result command_id result q))) command_id = Some result"
  by (auto simp: CommandQueue_set_result_def has_key_def update_conv' split: option.splits)

lemma CommandQueue_wait_consumes:
  "fst (CommandQueue_wait_for_result command_id fired q) = Result r \<Longrightarrow>
   \<not> has_key command_id (pending (snd (CommandQueue_wait_for_result command_id fired q)))"
  by (auto simp: CommandQueue_wait_for_result_def has_key_def delete_conv'
      split: option.splits if_splits)

text \<open>
  Claim C3, amended: \<open>CommandQueue.set_result\<close> returns true exactly when the command id is
  in \<open>_pending\<close>. It leaves the id pending, so a second \<open>set_result\<close> made before the
  submitter has consumed the result returns true again and overwrites the stored result.
  Once \<open>wait_for_result\<close> has returned the result, which removes the pending entry,
  \<open>set_result\<close> for that id returns false.
\<close>

theorem set_result_iff_pending:
  "fst (CommandQueue_set_result command_id result q) = has_key command_id (pending q)
   \<and> fst (CommandQueue_set_result command_id result'
           (snd (CommandQueue_set_result command_id result q)))
       = has_key command_id (pending q)
   \<and> (has_key command_id (pending q) \<longrightarrow>
        map_of (results (snd (CommandQueue_set_result command_id result'
                               (snd (CommandQueue_set_result command_id result q)))))
          command_id = Some result')
   \<and> (\<forall>r. fst (CommandQueue_wait_for_result command_id fired q) = Result r \<longrightarrow>
        \<not> fst (CommandQueue_set_result command_id result
                 (snd (CommandQueue_wait_for_result command_id fired q))))"
  by (simp add: CommandQueue_set_result_found CommandQueue_set_result_pending
      CommandQueue_set_result_stored CommandQueue_wait_consumes)

theorem set_result_iff_pending_witness:
  "has_key ''id-1'' (pending (snd (CommandQueue_add_command ''id-1'' ''execute_query'' ()
                                    (CommandQueue_init :: (unit, nat) CommandQueue))))
   \<and> fst (CommandQueue_set_result ''id-1'' 2
           (snd (CommandQueue_set_result ''id-1'' 1
                  (snd (CommandQueue_add_command ''id-1'' ''execute_query'' ()
                         (CommandQueue_init :: (unit, nat) CommandQueue))))))
   \<and> map_of (results (snd (CommandQueue_set_result ''id-1'' 2
           (snd (CommandQueue_set_result ''id-1'' 1
                  (snd (CommandQueue_add_command ''id-1'' ''execute_query'' ()
                         (CommandQueue_init :: (unit, nat) CommandQueue)))))))) ''id-1'' = Some 2
   \<and> fst (CommandQueue_wait_for_result ''id-1'' False
           (snd (CommandQueue_set_result ''id-1'' 1
                  (snd (CommandQueue_add_command ''id-1'' ''execute_query'' ()
                         (CommandQueue_init :: (unit, nat) CommandQueue)))))) = Result (Some 1)
   \<and> \<not> fst (CommandQueue_set_result ''id-1'' 2
             (snd (CommandQueue_wait_for_result ''id-1'' False
                    (snd (CommandQueue_set_result ''id-1'' 1
                           (snd (CommandQueue_add_command ''id-1'' ''execute_query'' ()
                                  (CommandQueue_init :: (unit, nat) CommandQueue))))))))"
proof -
  let ?q = "snd (CommandQueue_add_command ''id-1'' ''execute_query'' ()
                  (CommandQueue_init :: (unit, nat) CommandQueue))"
  let ?q1 = "snd (CommandQueue_set_result ''id-1'' 1 ?q)"
  have pend: "has_key ''id-1'' (pending ?q)"
    by (simp add: CommandQueue_add_command_def CommandQueue_init_def has_key_def Let_def)
  have waited: "fst (CommandQueue_wait_for_result ''id-1'' False ?q1) = Result (Some 1)"
    by (simp add: CommandQueue_wait_for_result_def CommandQueue_set_result_def
        CommandQueue_add_command_def CommandQueue_init_def Let_def)
  from set_result_iff_pending [of "''id-1''" 1 ?q 2 False]
    set_result_iff_pending [of "''id-1''" 2 ?q1 2 False] pend waited
  show ?thesis
    by simp
qed

section \<open>Unknown channels\<close>

lemma add_command_channels_None:
  "map_of (channels (snd (ChannelCommandQueue_add_command channel tname tparams uuid4 s))) c = None
   \<longleftrightarrow> c \<noteq> channel \<and> map_of (channels s) c = None"
  by (simp add: add_command_unfold update_conv')

lemma poll_channels_None:
  "map_of (channels (snd (ChannelCommandQueue_get_next_command channel timeout clock s))) c = None
   \<longleftrightarrow> map_of (channels s) c = None"
  by (cases "map_of (channels s) channel")
    (auto simp: poll_unknown_channel poll_known_channel update_conv')

lemma set_result_channels_None:
  "map_of (channels (snd (ChannelCommandQueue_set_result command_id result s))) c = None
   \<longleftrightarrow> map_of (channels s) c = None"
  by (auto simp: ChannelCommandQueue_set_result_def update_conv' split: option.splits prod.splits)

lemma wait_for_result_channels_None:
  "map_of (channels (snd (ChannelCommandQueue_wait_for_result command_id fired s))) c = None
   \<longleftrightarrow> map_of (channels s) c = None"
  by (auto simp: ChannelCommandQueue_wait_for_result_def update_conv'
      split: option.splits prod.splits waited.splits)

lemma step_channels_None:
  assumes "map_of (channels s) c = None" and "submitted c [call] = []"
  shows "map_of (channels (step call s)) c = None"
proof (cases call)
  case (Add_command ch tname tparams uuid4)
  with assms show ?thesis
    by (simp add: add_command_channels_None split: if_splits)
next
  case (Get_next_command ch timeout clock)
  with assms show ?thesis by (simp add: poll_channels_None)
next
  case (Set_result x r)
  with assms show ?thesis by (simp add: set_result_channels_None)
next
  case (Wait_for_result x fired)
  with assms show ?thesis by (simp add: wait_for_result_channels_None)
next
  case Get_stats
  with assms show ?thesis by simp
qed

lemma exec_channels_None:
  assumes "map_of (channels s) c = None" and "submitted c calls = []"
  shows "map_of (channels (exec calls s)) c = None"
  using assms
proof (induction calls arbitrary: s)
  case Nil
  then show ?case by simp
next
  case (Cons call calls)
  from Cons.prems(2) have one: "submitted c [call] = []" and rest: "submitted c calls = []"
    using submitted_Cons [of c call calls] by simp_all
  have "map_of (channels (step call s)) c = None"
    using Cons.prems(1) one by (rule step_channels_None)
  then have "map_of (channels (exec calls (step call s))) c = None"
    using rest by (rule Cons.IH)
  then show ?case by simp
qed

lemma stats_fold_None:
  assumes "map_of acc c = None" and "c \<notin> fst ` set chans"
  shows "map_of (foldl (\<lambda>stats (channel, q).
              if get_pending_count q > 0 then AList.update channel (get_pending_count q) stats
              else stats) acc chans) c = None"
  using assms
proof (induction chans arbitrary: acc)
  case Nil
  then show ?case by simp
next
  case (Cons a chans)
  obtain ch q where a: "a = (ch, q)" by (cases a)
  with Cons.prems have "ch \<noteq> c" and rest: "c \<notin> fst ` set chans" by auto
  with Cons.prems(1) have "map_of (if get_pending_count q > 0
        then AList.update ch (get_pending_count q) acc else acc) c = None"
    by (simp add: update_conv')
  from Cons.IH [OF this rest] a show ?case by simp
qed

lemma get_stats_None:
  assumes "map_of (channels s) c = None"
  shows "map_of (get_stats s) c = None"
proof -
  from assms have "c \<notin> fst ` set (channels s)"
    by (simp add: map_of_eq_None_iff)
  then show ?thesis
    unfolding get_stats_def by (intro stats_fold_None) simp_all
qed

text \<open>
  Claim C6. After any history of calls on a new \<open>ChannelCommandQueue\<close> in which no command
  was submitted to \<open>channel\<close>, and \<open>channel\<close> is not \<open>"default"\<close>, a poll on \<open>channel\<close>
  returns \<open>None\<close> and leaves the state as it was: no queue is created for the channel, and
  \<open>get_stats\<close> afterwards has no entry for it.
\<close>

theorem unknown_channel_does_not_materialize:
  assumes "channel \<noteq> ''default''" and "submitted channel calls = []"
  shows "ChannelCommandQueue_get_next_command channel timeout clock
           (exec calls ChannelCommandQueue_init)
         = (None, exec calls ChannelCommandQueue_init)
       \<and> \<not> has_key channel (channels (snd (ChannelCommandQueue_get_next_command channel timeout
               clock (exec calls ChannelCommandQueue_init))))
       \<and> map_of (get_stats (snd (ChannelCommandQueue_get_next_command channel timeout clock
               (exec calls ChannelCommandQueue_init)))) channel = None"
proof -
  have "map_of (channels (ChannelCommandQueue_init :: ('a, 'b) ChannelCommandQueue)) channel = None"
    using assms(1) by (simp add: ChannelCommandQueue_init_def)
  then have unknown:
    "map_of (channels (exec calls (ChannelCommandQueue_init :: ('a, 'b) ChannelCommandQueue)))
       channel = None"
    using assms(2) by (rule exec_channels_None)
  then show ?thesis
    by (simp add: poll_unknown_channel get_stats_None has_key_def)
qed

theorem unknown_channel_does_not_materialize_witness:
  "ChannelCommandQueue_get_next_command ''neverseen'' (Some 5) (steady_clock 0)
     (exec [Add_command ''alpha'' ''execute_query'' () ''id-1'', Set_result ''id-1'' 7]
        (ChannelCommandQueue_init :: (unit, nat) ChannelCommandQueue))
   = (None, exec [Add_command ''alpha'' ''execute_query'' () ''id-1'', Set_result ''id-1'' 7]
              ChannelCommandQueue_init)
   \<and> map_of (get_stats (snd (ChannelCommandQueue_get_next_command ''neverseen'' (Some 5)
       (steady_clock 0)
       (exec [Add_command ''alpha'' ''execute_query'' () ''id-1'', Set_result ''id-1'' 7]
          (ChannelCommandQueue_init :: (unit, nat) ChannelCommandQueue))))) ''neverseen'' = None
   \<and> map_of (get_stats (snd (ChannelCommandQueue_get_next_command ''neverseen'' (Some 5)
       (steady_clock 0)
       (exec [Add_command ''alpha'' ''execute_query'' () ''id-1'', Set_result ''id-1'' 7]
          (ChannelCommandQueue_init :: (unit, nat) ChannelCommandQueue))))) ''alpha'' = Some 1"
proof -
  let ?calls = "[Add_command ''alpha'' ''execute_query'' () ''id-1'', Set_result ''id-1'' 7
                 :: (unit, nat) call]"
  have a: "''neverseen'' \<noteq> ''default''" by simp
  have b: "submitted ''neverseen'' ?calls = []" by simp
  have stats: "map_of (get_stats (exec ?calls ChannelCommandQueue_init)) ''alpha'' = Some 1"
    by (simp add: queue_eval get_stats_def get_pending_count_def)
  note inst = unknown_channel_does_not_materialize [OF a b, of "Some 5" "steady_clock 0"]
  from inst have polled: "ChannelCommandQueue_get_next_command ''neverseen'' (Some 5)
      (steady_clock 0) (exec ?calls ChannelCommandQueue_init)
      = (None, exec ?calls ChannelCommandQueue_init)"
    by (rule conjunct1)
  from inst have absent: "map_of (get_stats (snd (ChannelCommandQueue_get_next_command
      ''neverseen'' (Some 5) (steady_clock 0) (exec ?calls ChannelCommandQueue_init))))
      ''neverseen'' = None"
    by blast
  show ?thesis
    using polled absent stats by (simp only: snd_conv simp_thms)
qed

section \<open>Cancellation after a timeout\<close>

lemma timeout_leaves_index:
  assumes "fst (ChannelCommandQueue_wait_for_result x fired s) = TimeoutError"
  shows "map_of (command_index (snd (ChannelCommandQueue_wait_for_result x fired s))) x = None"
  using assms wait_for_result_index [of x fired s x] by simp

lemma step_index_None:
  assumes "map_of (command_index s) x = None" and "x \<notin> set (drawn_ids [call])"
  shows "map_of (command_index (step call s)) x = None"
proof (cases call)
  case (Add_command ch tname tparams uuid4)
  with assms show ?thesis
    by (simp add: add_command_index update_conv')
next
  case (Get_next_command ch timeout clock)
  with assms show ?thesis by simp
next
  case (Set_result y r)
  with assms show ?thesis by simp
next
  case (Wait_for_result y fired)
  with assms show ?thesis by (simp add: wait_for_result_index)
next
  case Get_stats
  with assms show ?thesis by simp
qed

lemma exec_index_None:
  assumes "map_of (command_index s) x = None" and "x \<notin> set (drawn_ids calls)"
  shows "map_of (command_index (exec calls s)) x = None"
  using assms
proof (induction calls arbitrary: s)
  case Nil
  then show ?case by simp
next
  case (Cons call calls)
  from Cons.prems(2) have one: "x \<notin> set (drawn_ids [call])"
    and rest: "x \<notin> set (drawn_ids calls)"
    using drawn_ids_Cons [of call calls] by simp_all
  have "map_of (command_index (step call s)) x = None"
    using Cons.prems(1) one by (rule step_index_None)
  then have "map_of (command_index (exec calls (step call s))) x = None"
    using rest by (rule Cons.IH)
  then show ?case by simp
qed

lemma set_result_unindexed:
  "map_of (command_index s) x = None \<Longrightarrow> \<not> fst (ChannelCommandQueue_set_result x result s)"
  by (simp add: ChannelCommandQueue_set_result_def)

lemma poll_skips_unindexed:
  assumes "map_of (command_index s) x = None"
  shows "map_option cmd_id (fst (ChannelCommandQueue_get_next_command channel timeout clock s))
           \<noteq> Some x"
proof
  assume "map_option cmd_id (fst (ChannelCommandQueue_get_next_command channel timeout clock s))
            = Some x"
  then obtain c where c: "fst (ChannelCommandQueue_get_next_command channel timeout clock s) = Some c"
    and "cmd_id c = x"
    by auto
  with poll_delivers_queued [OF c] assms show False
    by (simp add: has_key_def)
qed

text \<open>
  Claim C2. If \<open>ChannelCommandQueue.wait_for_result\<close> for the command id \<open>x\<close> times out,
  then after any further calls (none of which draws the UUID \<open>x\<close> again) every
  \<open>set_result\<close> for \<open>x\<close> returns false, and no poll on any channel returns a command whose
  id is \<open>x\<close>: a poll that takes \<open>x\<close> off a queue skips it.
\<close>

theorem cancelled_after_timeout:
  assumes "fst (ChannelCommandQueue_wait_for_result x fired s) = TimeoutError"
    and "x \<notin> set (drawn_ids calls)"
  shows "\<not> fst (ChannelCommandQueue_set_result x result
                (exec calls (snd (ChannelCommandQueue_wait_for_result x fired s))))
       \<and> map_option cmd_id
           (fst (ChannelCommandQueue_get_next_command channel timeout clock
                  (exec calls (snd (ChannelCommandQueue_wait_for_result x fired s)))))
         \<noteq> Some x"
proof -
  have "map_of (command_index (snd (ChannelCommandQueue_wait_for_result x fired s))) x = None"
    using assms(1) by (rule timeout_leaves_index)
  then have "map_of (command_index
               (exec calls (snd (ChannelCommandQueue_wait_for_result x fired s)))) x = None"
    using assms(2) by (rule exec_index_None)
  then show ?thesis
    by (intro conjI set_result_unindexed poll_skips_unindexed)
qed

theorem cancelled_after_timeout_witness:
  "fst (ChannelCommandQueue_wait_for_result ''id-1'' True submitted_twice) = TimeoutError
   \<and> queue_of ''alpha'' (snd (ChannelCommandQueue_wait_for_result ''id-1'' True submitted_twice))
     = [\<lparr>cmd_id = ''id-1'', tool = ''execute_query'', params = ()\<rparr>,
        \<lparr>cmd_id = ''id-2'', tool = ''execute_code'', params = ()\<rparr>]
   \<and> \<not> fst (ChannelCommandQueue_set_result ''id-1'' 7
             (exec [Get_stats] (snd (ChannelCommandQueue_wait_for_result ''id-1'' True
                                      submitted_twice))))
   \<and> fst (ChannelCommandQueue_get_next_command ''alpha'' (Some 5) (steady_clock 0)
           (exec [Get_stats] (snd (ChannelCommandQueue_wait_for_result ''id-1'' True
                                    submitted_twice))))
     = Some \<lparr>cmd_id = ''id-2'', tool = ''execute_code'', params = ()\<rparr>"
proof -
  have timed_out:
    "fst (ChannelCommandQueue_wait_for_result ''id-1'' True submitted_twice) = TimeoutError"
    by (simp add: submitted_twice_def queue_eval)
  have fresh: "''id-1'' \<notin> set (drawn_ids [Get_stats :: (unit, nat) call])"
    by simp
  have queued:
    "queue_of ''alpha'' (snd (ChannelCommandQueue_wait_for_result ''id-1'' True submitted_twice))
     = [\<lparr>cmd_id = ''id-1'', tool = ''execute_query'', params = ()\<rparr>,
        \<lparr>cmd_id = ''id-2'', tool = ''execute_code'', params = ()\<rparr>]"
    by (simp add: submitted_twice_def queue_eval queue_of_def)
  have polled:
    "fst (ChannelCommandQueue_get_next_command ''alpha'' (Some 5) (steady_clock 0)
           (exec [Get_stats] (snd (ChannelCommandQueue_wait_for_result ''id-1'' True
                                    submitted_twice))))
     = Some \<lparr>cmd_id = ''id-2'', tool = ''execute_code'', params = ()\<rparr>"
    by (simp add: submitted_twice_def queue_eval)
  from cancelled_after_timeout [OF timed_out fresh, of 7 "''alpha''" "Some 5" "steady_clock 0"]
  have "\<not> fst (ChannelCommandQueue_set_result ''id-1'' 7
             (exec [Get_stats] (snd (ChannelCommandQueue_wait_for_result ''id-1'' True
                                      submitted_twice))))"
    by (rule conjunct1)
  with timed_out queued polled show ?thesis
    by (simp only: simp_thms)
qed

end
